theory Spec2Isabelle
  imports Main "HOL-Library.Word"
begin

section \<open>Smart lock firmware: challenge-response handlers of main.c\<close>

text \<open>
  The firmware keeps three globals (\<open>pre_shared_key\<close>, \<open>current_challenge\<close>,
  \<open>lock_is_open\<close>) and the LED strip handle. Two HTTP handlers work on them:
  \<open>get_challenge_handler\<close> (GET /challenge) and \<open>post_response_handler\<close>
  (POST /response). Character buffers are byte lists of the declared size, read as C
  strings up to the first NUL byte.
\<close>

subsection \<open>Bytes, C strings and the libc functions the handlers call\<close>

type_synonym byte = "8 word"
type_synonym rgb = "byte \<times> byte \<times> byte"

definition bytes_of :: "string \<Rightarrow> byte list" where
  "bytes_of cs = map (\<lambda>c. of_nat (of_char c)) cs"

text \<open>The C string held in a buffer: the bytes before the first NUL.\<close>

definition c_str :: "byte list \<Rightarrow> byte list" where
  "c_str buf = takeWhile (\<lambda>b. b \<noteq> 0) buf"

text \<open>
  \<open>strcmp\<close>: walks both buffers until the bytes differ or both hold NUL; the result is
  the difference of the two bytes as unsigned chars. The end of a list counts as a NUL.
\<close>

fun strcmp :: "byte list \<Rightarrow> byte list \<Rightarrow> int" where
  "strcmp [] [] = 0"
| "strcmp [] (b # bs) = - uint b"
| "strcmp (a # as) [] = uint a"
| "strcmp (a # as) (b # bs) =
     (if a \<noteq> b then uint a - uint b else if a = 0 then 0 else strcmp as bs)"

text \<open>
  \<open>snprintf dst n out\<close>: \<open>out\<close> is the formatted text; at most \<open>n - 1\<close> bytes of it
  are stored at the start of \<open>dst\<close>, followed by a NUL; the rest of \<open>dst\<close> keeps its
  old content.
\<close>

definition snprintf :: "byte list \<Rightarrow> nat \<Rightarrow> byte list \<Rightarrow> byte list" where
  "snprintf dst n out =
     (if n = 0 then dst
      else let w = take (n - 1) out @ [0] in w @ drop (length w) dst)"

text \<open>The conversion \<open>%u\<close>: the decimal digits of an unsigned value, no leading zero.\<close>

fun dec_digits :: "nat \<Rightarrow> byte list" where
  "dec_digits n =
     (if n < 10 then [of_nat (48 + n)]
      else dec_digits (n div 10) @ [of_nat (48 + n mod 10)])"

declare dec_digits.simps [simp del]

definition fmt_u :: "32 word \<Rightarrow> byte list" where
  "fmt_u v = dec_digits (unat v)"

subsection \<open>Globals\<close>

record lock_state =
  led_strip :: bool
  pixel :: rgb
  pre_shared_key :: "byte list"
  current_challenge :: "byte list"
  lock_is_open :: bool

text \<open>
  The static initialisers: no LED handle, \<open>pre_shared_key[32] = "DEFAULT_KEY"\<close>,
  \<open>current_challenge[64]\<close> zeroed, the lock closed.
\<close>

definition static_init :: lock_state where
  "static_init =
     \<lparr> led_strip = False, pixel = (0, 0, 0),
       pre_shared_key = bytes_of ''DEFAULT_KEY'' @ replicate 21 0,
       current_challenge = replicate 64 0,
       lock_is_open = False \<rparr>"

subsection \<open>Statements with an effect, and their execution\<close>

datatype esp_err = ESP_OK | ESP_FAIL

datatype http_status = HTTPD_400_BAD_REQUEST | HTTPD_401_UNAUTHORIZED

datatype stmt =
    Configure_led_strip
  | Set_led_color byte byte byte
  | Store_current_challenge "byte list"
  | Set_lock_is_open bool
  | Httpd_resp_set_type string
  | Httpd_resp_sendstr "byte list"
  | Httpd_resp_send_err http_status string
  | VTaskDelay_ms nat

text \<open>
  \<open>set_led_color\<close> writes pixel 0 only when the handle is not NULL.
  \<open>configure_led_strip\<close> creates the handle and clears the strip (a failure aborts
  the firmware through \<open>ESP_ERROR_CHECK\<close>). \<open>VTaskDelay_ms n\<close> stands for
  \<open>vTaskDelay(pdMS_TO_TICKS(n))\<close>. Sending and waiting leave the globals alone.
\<close>

fun step :: "stmt \<Rightarrow> lock_state \<Rightarrow> lock_state" where
  "step Configure_led_strip s = s\<lparr>led_strip := True, pixel := (0, 0, 0)\<rparr>"
| "step (Set_led_color r g b) s = (if led_strip s then s\<lparr>pixel := (r, g, b)\<rparr> else s)"
| "step (Store_current_challenge c) s = s\<lparr>current_challenge := c\<rparr>"
| "step (Set_lock_is_open v) s = s\<lparr>lock_is_open := v\<rparr>"
| "step (Httpd_resp_set_type t) s = s"
| "step (Httpd_resp_sendstr m) s = s"
| "step (Httpd_resp_send_err st m) s = s"
| "step (VTaskDelay_ms n) s = s"

text \<open>The states a statement list passes through, one after each statement.\<close>

fun run :: "stmt list \<Rightarrow> lock_state \<Rightarrow> lock_state list" where
  "run [] s = []"
| "run (c # cs) s = step c s # run cs (step c s)"

definition exec :: "stmt list \<Rightarrow> lock_state \<Rightarrow> lock_state" where
  "exec cs s = fold step cs s"

text \<open>\<open>app_main\<close>, as far as the globals go: LED set up and shown red.\<close>

definition app_main :: lock_state where
  "app_main = exec [Configure_led_strip, Set_led_color 255 0 0] static_init"

subsection \<open>GET /challenge\<close>

text \<open>\<open>rand_val\<close> is what \<open>esp_random()\<close> returned.\<close>

definition get_challenge_handler :: "32 word \<Rightarrow> lock_state \<Rightarrow> esp_err \<times> stmt list" where
  "get_challenge_handler rand_val s =
     (let chal = snprintf (current_challenge s) 64 (fmt_u rand_val)
      in (ESP_OK,
          [Store_current_challenge chal,
           Httpd_resp_set_type ''text/plain'',
           Httpd_resp_sendstr (c_str chal)]))"

subsection \<open>POST /response\<close>

text \<open>
  A request: the declared body length (\<open>size_t\<close>, 32 bits on this target), the bytes
  the socket hands to the first read, and whether that read fails.
\<close>

record httpd_req =
  content_len :: "32 word"
  body :: "byte list"
  sock_err :: bool

text \<open>
  \<open>httpd_req_recv\<close> is a call into the HTTP server library: it returns a negative
  code on a socket error, otherwise the number of bytes stored, at most \<open>buf_len\<close>.
\<close>

definition httpd_req_recv :: "httpd_req \<Rightarrow> nat \<Rightarrow> int \<times> byte list" where
  "httpd_req_recv req buf_len =
     (if sock_err req then (- 1, [])
      else let n = min buf_len (length (body req))
           in (int n, take n (body req)))"

text \<open>
  \<open>total_len\<close> is an \<open>int\<close> holding \<open>content_len\<close>; the comparison with
  \<open>sizeof(resp_buf)\<close> converts it back to \<open>size_t\<close>, so it is the unsigned order on
  the 32 bits. \<open>resp_buf\<close> and \<open>expected\<close> are locals: the bytes behind their
  terminating NUL are never read and are left out.
\<close>

definition post_response_handler :: "httpd_req \<Rightarrow> lock_state \<Rightarrow> esp_err \<times> stmt list" where
  "post_response_handler req s =
     (let total_len = content_len req in
      if 64 \<le> total_len
      then (ESP_FAIL, [Httpd_resp_send_err HTTPD_400_BAD_REQUEST ''Response too long''])
      else
        let (recv_len, data) = httpd_req_recv req (unat total_len) in
        if recv_len \<le> 0
        then (ESP_FAIL,
              [Httpd_resp_send_err HTTPD_400_BAD_REQUEST ''No response data received''])
        else
          let resp_buf = take (nat recv_len) data @ [0];
              expected = snprintf [] 128
                           (c_str (current_challenge s) @ c_str (pre_shared_key s))
          in if strcmp resp_buf expected = 0
             then (ESP_OK,
                   [Set_lock_is_open True,
                    Set_led_color 0 255 0,
                    Httpd_resp_sendstr (bytes_of ''Unlocked'')])
             else (ESP_OK,
                   [Set_led_color 0 0 255,
                    Httpd_resp_send_err HTTPD_401_UNAUTHORIZED ''Invalid token'',
                    VTaskDelay_ms 4000,
                    Set_lock_is_open False,
                    Set_led_color 255 0 0]))"

subsection \<open>The two operations and their outcomes\<close>

datatype outcome = Accepted | Rejected | Malformed

text \<open>
  What the client is told: a plain answer is an acceptance, status 401 a rejection,
  status 400 a malformed request.
\<close>

fun outcome_of :: "stmt list \<Rightarrow> outcome option" where
  "outcome_of [] = None"
| "outcome_of (Httpd_resp_sendstr m # cs) = Some Accepted"
| "outcome_of (Httpd_resp_send_err HTTPD_401_UNAUTHORIZED m # cs) = Some Rejected"
| "outcome_of (Httpd_resp_send_err HTTPD_400_BAD_REQUEST m # cs) = Some Malformed"
| "outcome_of (c # cs) = outcome_of cs"

text \<open>A payload that arrives whole, with its length as the declared length.\<close>

definition request_of :: "byte list \<Rightarrow> httpd_req" where
  "request_of p = \<lparr> content_len = of_nat (length p), body = p, sock_err = False \<rparr>"

definition verify_outcome :: "httpd_req \<Rightarrow> lock_state \<Rightarrow> outcome option" where
  "verify_outcome req s = outcome_of (snd (post_response_handler req s))"

definition verify :: "httpd_req \<Rightarrow> lock_state \<Rightarrow> lock_state" where
  "verify req s = exec (snd (post_response_handler req s)) s"

definition issue :: "32 word \<Rightarrow> lock_state \<Rightarrow> lock_state" where
  "issue rand_val s = exec (snd (get_challenge_handler rand_val s)) s"

text \<open>The token the client receives from GET /challenge.\<close>

fun sent_body :: "stmt list \<Rightarrow> byte list option" where
  "sent_body [] = None"
| "sent_body (Httpd_resp_sendstr m # cs) = Some m"
| "sent_body (c # cs) = sent_body cs"

definition issued_token :: "32 word \<Rightarrow> lock_state \<Rightarrow> byte list option" where
  "issued_token rand_val s = sent_body (snd (get_challenge_handler rand_val s))"

datatype op = IssueChallenge "32 word" | Verify httpd_req

fun apply_op :: "op \<Rightarrow> lock_state \<Rightarrow> lock_state" where
  "apply_op (IssueChallenge r) s = issue r s"
| "apply_op (Verify req) s = verify req s"

fun run_ops :: "op list \<Rightarrow> lock_state \<Rightarrow> lock_state" where
  "run_ops [] s = s"
| "run_ops (x # xs) s = run_ops xs (apply_op x s)"

text \<open>
  Buffers as the firmware can have them: the declared sizes, each holding a NUL.
\<close>

definition wf_state :: "lock_state \<Rightarrow> bool" where
  "wf_state s \<longleftrightarrow>
     length (pre_shared_key s) = 32 \<and> 0 \<in> set (pre_shared_key s) \<and>
     length (current_challenge s) = 64 \<and> 0 \<in> set (current_challenge s)"

text \<open>
  Derived notions for the proofs: the bytes the handler reads from a request, the text
  \<open>snprintf\<close> leaves in \<open>expected\<close>, and the four statement lists the handler
  can return.
\<close>

definition received :: "httpd_req \<Rightarrow> byte list" where
  "received req = take (unat (content_len req)) (body req)"

definition expected_of :: "lock_state \<Rightarrow> byte list" where
  "expected_of s = take 127 (c_str (current_challenge s) @ c_str (pre_shared_key s))"

abbreviation too_long :: "stmt list" where
  "too_long \<equiv> [Httpd_resp_send_err HTTPD_400_BAD_REQUEST ''Response too long'']"

abbreviation no_data :: "stmt list" where
  "no_data \<equiv> [Httpd_resp_send_err HTTPD_400_BAD_REQUEST ''No response data received'']"

abbreviation unlock :: "stmt list" where
  "unlock \<equiv> [Set_lock_is_open True, Set_led_color 0 255 0,
              Httpd_resp_sendstr (bytes_of ''Unlocked'')]"

abbreviation relock :: "stmt list" where
  "relock \<equiv> [Set_led_color 0 0 255,
              Httpd_resp_send_err HTTPD_401_UNAUTHORIZED ''Invalid token'',
              VTaskDelay_ms 4000, Set_lock_is_open False, Set_led_color 255 0 0]"

text \<open>
  A history of operations: the answer to each POST /response in order, and the most
  recent answer that was an acceptance or a rejection.
\<close>

fun verdicts :: "op list \<Rightarrow> lock_state \<Rightarrow> outcome option list" where
  "verdicts [] s = []"
| "verdicts (IssueChallenge r # xs) s = verdicts xs (issue r s)"
| "verdicts (Verify req # xs) s = verify_outcome req s # verdicts xs (verify req s)"

definition decide :: "outcome option \<Rightarrow> outcome option \<Rightarrow> outcome option" where
  "decide v acc = (if v = Some Accepted \<or> v = Some Rejected then v else acc)"

definition last_decision :: "outcome option list \<Rightarrow> outcome option" where
  "last_decision vs = fold decide vs None"

definition resolve :: "outcome option \<Rightarrow> bool \<Rightarrow> bool" where
  "resolve d b = (case d of None \<Rightarrow> b | Some v \<Rightarrow> v = Accepted)"

section \<open>Properties\<close>

subsection \<open>C strings\<close>

lemma c_str_no_nul: "0 \<notin> set (c_str buf)"
  unfolding c_str_def by (induction buf) auto

lemma c_str_append_nul: "0 \<notin> set xs \<Longrightarrow> c_str (xs @ 0 # ys) = xs"
  unfolding c_str_def by (induction xs) auto

lemma c_str_snoc_nul: "c_str (xs @ [0]) = c_str xs"
  unfolding c_str_def by (induction xs) auto

lemma c_str_id: "0 \<notin> set xs \<Longrightarrow> c_str xs = xs"
  unfolding c_str_def by (induction xs) auto

lemma c_str_length_less: "0 \<in> set buf \<Longrightarrow> length (c_str buf) < length buf"
  unfolding c_str_def by (induction buf) auto

text \<open>\<open>strcmp\<close> returns 0 exactly when the two C strings are equal.\<close>

lemma strcmp_eq_0: "strcmp a b = 0 \<longleftrightarrow> c_str a = c_str b"
proof (induction a b rule: strcmp.induct)
  case 1
  show ?case by simp
next
  case (2 b bs)
  show ?case by (simp add: c_str_def uint_0_iff)
next
  case (3 a as)
  show ?case by (simp add: c_str_def uint_0_iff)
next
  case (4 a as b bs)
  have "uint a - uint b = 0 \<longleftrightarrow> a = b" by (simp add: word_uint_eq_iff)
  with 4 show ?case by (simp add: c_str_def uint_0_iff)
qed

lemma c_str_snprintf:
  "0 \<notin> set out \<Longrightarrow> length out < n \<Longrightarrow> c_str (snprintf dst n out) = out"
  by (simp add: snprintf_def Let_def c_str_append_nul)

lemma length_snprintf: "n \<le> length dst \<Longrightarrow> length (snprintf dst n out) = length dst"
  by (auto simp: snprintf_def Let_def min_def)

lemma nul_in_snprintf: "0 < n \<Longrightarrow> 0 \<in> set (snprintf dst n out)"
  by (simp add: snprintf_def Let_def)

lemma snprintf_local: "snprintf [] (Suc n) out = take n out @ [0]"
  by (simp add: snprintf_def)

lemma c_str_expected:
  "c_str (snprintf [] 128 (c_str (current_challenge s) @ c_str (pre_shared_key s)))
     = expected_of s"
proof -
  let ?out = "c_str (current_challenge s) @ c_str (pre_shared_key s)"
  have "0 \<notin> set ?out" by (simp add: c_str_no_nul)
  then have nz: "0 \<notin> set (take 127 ?out)" by (auto dest: in_set_takeD)
  have "snprintf [] 128 ?out = take 127 ?out @ [0]"
    using snprintf_local [of 127 ?out] by simp
  then have "c_str (snprintf [] 128 ?out) = c_str (take 127 ?out)"
    by (simp only: c_str_snoc_nul)
  also have "\<dots> = take 127 ?out" using nz by (rule c_str_id)
  finally show ?thesis unfolding expected_of_def .
qed

subsection \<open>The four ways through POST /response\<close>

lemma recv_whole:
  "\<not> sock_err req \<Longrightarrow>
   httpd_req_recv req (unat (content_len req)) = (int (length (received req)), received req)"
  by (simp add: httpd_req_recv_def received_def Let_def min.commute min_def)

lemma post_response_handler_eq:
  "post_response_handler req s =
     (if 64 \<le> content_len req then (ESP_FAIL, too_long)
      else if sock_err req \<or> received req = [] then (ESP_FAIL, no_data)
      else if c_str (received req) = expected_of s then (ESP_OK, unlock)
      else (ESP_OK, relock))"
proof (cases "sock_err req")
  case True
  then show ?thesis
    by (simp add: post_response_handler_def httpd_req_recv_def)
next
  case False
  show ?thesis
    unfolding post_response_handler_def Let_def recv_whole [OF False]
    by (simp add: strcmp_eq_0 c_str_snoc_nul c_str_expected False)
qed

subsection \<open>Decimal tokens\<close>

lemma digit_not_nul: "d < 10 \<Longrightarrow> (of_nat (48 + d) :: byte) \<noteq> 0"
proof
  assume d: "d < 10" and z: "(of_nat (48 + d) :: byte) = 0"
  have "unat (of_nat (48 + d) :: byte) = (48 + d) mod 2 ^ LENGTH(8)"
    by (rule unat_of_nat)
  with d have "unat (of_nat (48 + d) :: byte) = 48 + d" by simp
  with z show False by (simp del: of_nat_add)
qed

lemma dec_digits_no_nul: "0 \<notin> set (dec_digits n)"
proof (induction n rule: dec_digits.induct)
  case (1 n)
  show ?case
  proof (cases "n < 10")
    case True
    then show ?thesis
      using digit_not_nul [of n] by (subst dec_digits.simps) auto
  next
    case False
    have "n mod 10 < 10" by simp
    then have "(of_nat (48 + n mod 10) :: byte) \<noteq> 0" by (rule digit_not_nul)
    with False "1.IH" show ?thesis
      by (subst dec_digits.simps) auto
  qed
qed

lemma dec_digits_nonempty: "dec_digits n \<noteq> []"
  by (subst dec_digits.simps) simp

lemma dec_digits_length: "0 < k \<Longrightarrow> n < 10 ^ k \<Longrightarrow> length (dec_digits n) \<le> k"
proof (induction n arbitrary: k rule: dec_digits.induct)
  case (1 n)
  show ?case
  proof (cases "n < 10")
    case True
    with "1.prems" show ?thesis by (subst dec_digits.simps) simp
  next
    case False
    from "1.prems" False obtain j where k: "k = Suc j" and j: "0 < j"
      by (cases k; cases "k - 1") auto
    from "1.prems" k have "n div 10 < 10 ^ j"
      by (simp add: less_mult_imp_div_less mult.commute)
    with "1.IH" [OF False j] have "length (dec_digits (n div 10)) \<le> j" by simp
    with False k show ?thesis by (subst dec_digits.simps) simp
  qed
qed

lemma fmt_u_length: "length (fmt_u v) \<le> 10"
proof -
  have "unat v < 2 ^ 32" using unsigned_less [of v] by simp
  also have "(2::nat) ^ 32 < 10 ^ 10" by simp
  finally show ?thesis unfolding fmt_u_def by (intro dec_digits_length) simp_all
qed

lemma fmt_u_no_nul: "0 \<notin> set (fmt_u v)"
  by (simp add: fmt_u_def dec_digits_no_nul)

lemma fmt_u_nonempty: "fmt_u v \<noteq> []"
  by (simp add: fmt_u_def dec_digits_nonempty)

lemma digit_inj: "a < 10 \<Longrightarrow> b < 10 \<Longrightarrow> (of_nat (48 + a) :: byte) = of_nat (48 + b) \<Longrightarrow> a = b"
proof -
  assume a: "a < 10" and b: "b < 10" and e: "(of_nat (48 + a) :: byte) = of_nat (48 + b)"
  have "unat (of_nat (48 + a) :: byte) = (48 + a) mod 2 ^ LENGTH(8)"
       "unat (of_nat (48 + b) :: byte) = (48 + b) mod 2 ^ LENGTH(8)"
    by (rule unat_of_nat)+
  with a b have ua: "unat (of_nat (48 + a) :: byte) = 48 + a"
    and ub: "unat (of_nat (48 + b) :: byte) = 48 + b"
    by simp_all
  from e have "unat (of_nat (48 + a) :: byte) = unat (of_nat (48 + b) :: byte)"
    by (rule arg_cong)
  then have "48 + a = 48 + b" unfolding ua ub .
  then show "a = b" by simp
qed

lemma dec_digits_small: "n < 10 \<Longrightarrow> dec_digits n = [of_nat (48 + n)]"
  by (subst dec_digits.simps) simp

lemma dec_digits_big:
  "\<not> n < 10 \<Longrightarrow> dec_digits n = dec_digits (n div 10) @ [of_nat (48 + n mod 10)]"
  by (subst dec_digits.simps) simp

lemma dec_digits_inj: "dec_digits n = dec_digits m \<Longrightarrow> n = m"
proof (induction n arbitrary: m rule: dec_digits.induct)
  case (1 n)
  show ?case
  proof (cases "n < 10")
    case n: True
    note dn = dec_digits_small [OF n]
    show ?thesis
    proof (cases "m < 10")
      case True
      from "1.prems" have "(of_nat (48 + n) :: byte) = of_nat (48 + m)"
        unfolding dn dec_digits_small [OF True] by simp
      with n True show ?thesis by (rule digit_inj)
    next
      case False
      from "1.prems" have "[of_nat (48 + n) :: byte] = dec_digits (m div 10) @ [of_nat (48 + m mod 10)]"
        unfolding dn dec_digits_big [OF False] .
      then have "dec_digits (m div 10) = []" by simp
      with dec_digits_nonempty show ?thesis by blast
    qed
  next
    case n: False
    note dn = dec_digits_big [OF n]
    show ?thesis
    proof (cases "m < 10")
      case True
      from "1.prems" have "dec_digits (n div 10) @ [of_nat (48 + n mod 10)] = [of_nat (48 + m) :: byte]"
        unfolding dn dec_digits_small [OF True] .
      then have "dec_digits (n div 10) = []" by simp
      with dec_digits_nonempty show ?thesis by blast
    next
      case False
      from "1.prems" have "dec_digits (n div 10) @ [of_nat (48 + n mod 10)]
          = dec_digits (m div 10) @ [of_nat (48 + m mod 10)]"
        unfolding dn dec_digits_big [OF False] .
      then have q: "dec_digits (n div 10) = dec_digits (m div 10)"
        and d: "(of_nat (48 + n mod 10) :: byte) = of_nat (48 + m mod 10)"
        by simp_all
      from "1.IH" [OF n q] have "n div 10 = m div 10" .
      moreover from d have "n mod 10 = m mod 10" by (intro digit_inj) simp_all
      ultimately show ?thesis by (metis div_mult_mod_eq)
    qed
  qed
qed

lemma fmt_u_inj: "fmt_u a = fmt_u b \<Longrightarrow> a = b"
proof -
  assume "fmt_u a = fmt_u b"
  then have "unat a = unat b" unfolding fmt_u_def by (rule dec_digits_inj)
  then show "a = b" using word_unat_eq_iff by blast
qed

subsection \<open>What the two operations do to the globals\<close>

lemma issue_eq:
  "issue r s = s\<lparr>current_challenge := snprintf (current_challenge s) 64 (fmt_u r)\<rparr>"
  by (simp add: issue_def get_challenge_handler_def exec_def Let_def)

lemma c_str_issued: "c_str (snprintf dst 64 (fmt_u r)) = fmt_u r"
proof -
  have "length (fmt_u r) < 64" using fmt_u_length [of r] by simp
  with fmt_u_no_nul show ?thesis by (rule c_str_snprintf)
qed

lemma exec_unlock:
  "exec unlock s = (if led_strip s then s\<lparr>lock_is_open := True, pixel := (0, 255, 0)\<rparr>
                    else s\<lparr>lock_is_open := True\<rparr>)"
  by (simp add: exec_def)

lemma exec_relock:
  "exec relock s = (if led_strip s then s\<lparr>pixel := (255, 0, 0), lock_is_open := False\<rparr>
                    else s\<lparr>lock_is_open := False\<rparr>)"
  by (simp add: exec_def)

lemma verify_eq:
  "verify req s =
     (if 64 \<le> content_len req \<or> sock_err req \<or> received req = [] then s
      else if c_str (received req) = expected_of s then exec unlock s
      else exec relock s)"
  by (simp add: verify_def post_response_handler_eq exec_def)

lemma verify_outcome_eq:
  "verify_outcome req s =
     Some (if 64 \<le> content_len req \<or> sock_err req \<or> received req = [] then Malformed
           else if c_str (received req) = expected_of s then Accepted
           else Rejected)"
  by (simp add: verify_outcome_def post_response_handler_eq)

lemma verify_challenge: "current_challenge (verify req s) = current_challenge s"
  by (simp add: verify_eq exec_unlock exec_relock)

lemma verify_key: "pre_shared_key (verify req s) = pre_shared_key s"
  by (simp add: verify_eq exec_unlock exec_relock)

lemma verify_led_strip: "led_strip (verify req s) = led_strip s"
  by (simp add: verify_eq exec_unlock exec_relock)

lemma expected_verify: "expected_of (verify req s) = expected_of s"
  by (simp add: expected_of_def verify_challenge verify_key)

lemma run_verifies_challenge:
  "current_challenge (run_ops (map Verify reqs) s) = current_challenge s"
  by (induction reqs arbitrary: s) (simp_all add: verify_challenge)

lemma request_of_small:
  assumes "length p < 64"
  shows "\<not> 64 \<le> content_len (request_of p)" and "received (request_of p) = p"
    and "\<not> sock_err (request_of p)"
proof -
  have "unat (of_nat (length p) :: 32 word) = length p mod 2 ^ LENGTH(32)"
    by (rule unat_of_nat)
  with assms have u: "unat (of_nat (length p) :: 32 word) = length p" by simp
  with assms show "\<not> 64 \<le> content_len (request_of p)"
    by (simp add: request_of_def word_le_nat_alt)
  from u show "received (request_of p) = p" by (simp add: received_def request_of_def)
  show "\<not> sock_err (request_of p)" by (simp add: request_of_def)
qed

lemma verify_outcome_payload:
  "length p < 64 \<Longrightarrow>
   verify_outcome (request_of p) s =
     Some (if p = [] then Malformed
           else if c_str p = expected_of s then Accepted else Rejected)"
  by (simp add: verify_outcome_eq request_of_small)

lemma expected_wf:
  assumes "wf_state s"
  shows "expected_of s = c_str (current_challenge s) @ c_str (pre_shared_key s)"
proof -
  from assms have "length (c_str (current_challenge s)) < 64"
    and "length (c_str (pre_shared_key s)) < 32"
    using c_str_length_less [of "current_challenge s"] c_str_length_less [of "pre_shared_key s"]
    by (simp_all add: wf_state_def)
  then show ?thesis by (simp add: expected_of_def)
qed

lemma wf_issue: "wf_state s \<Longrightarrow> wf_state (issue r s)"
  by (simp add: wf_state_def issue_eq length_snprintf nul_in_snprintf)

lemma wf_verify: "wf_state s \<Longrightarrow> wf_state (verify req s)"
  by (simp add: wf_state_def verify_challenge verify_key)

lemma issue_key: "pre_shared_key (issue r s) = pre_shared_key s"
  by (simp add: issue_eq)

lemma expected_issue:
  assumes "wf_state s"
  shows "expected_of (issue r s) = fmt_u r @ c_str (pre_shared_key s)"
  using expected_wf [OF wf_issue [OF assms], of r]
  by (simp add: issue_eq c_str_issued)

subsection \<open>The state after boot and the example token\<close>

lemma app_main_eq:
  "app_main = \<lparr> led_strip = True, pixel = (255, 0, 0),
       pre_shared_key = bytes_of ''DEFAULT_KEY'' @ replicate 21 0,
       current_challenge = replicate 64 0,
       lock_is_open = False \<rparr>"
  by (simp add: app_main_def static_init_def exec_def)

lemma wf_app_main: "wf_state app_main"
  by code_simp

lemma expected_app_main: "expected_of app_main = bytes_of ''DEFAULT_KEY''"
  by code_simp

lemma key_app_main: "c_str (pre_shared_key app_main) = bytes_of ''DEFAULT_KEY''"
  by (simp add: app_main_eq c_str_def bytes_of_def)

lemma led_app_main: "led_strip app_main"
  by (simp add: app_main_eq)

lemma fmt_u_482913: "fmt_u 482913 = bytes_of ''482913''"
  by (simp add: fmt_u_def dec_digits.simps bytes_of_def)

lemma bytes_of_append: "bytes_of (a @ b) = bytes_of a @ bytes_of b"
  by (simp add: bytes_of_def)

subsection \<open>Responses built from a token and the key\<close>

lemma verify_outcome_wf:
  assumes "wf_state s" and "length p < 64"
  shows "verify_outcome (request_of p) s =
     Some (if p = [] then Malformed
           else if c_str p = c_str (current_challenge s) @ c_str (pre_shared_key s)
           then Accepted else Rejected)"
  by (simp add: verify_outcome_payload [OF assms(2)] expected_wf [OF assms(1)])

lemma response_well_formed:
  assumes "wf_state s"
  shows "length (fmt_u r @ c_str (pre_shared_key s)) < 64"
    and "fmt_u r @ c_str (pre_shared_key s) \<noteq> []"
    and "c_str (fmt_u r @ c_str (pre_shared_key s)) = fmt_u r @ c_str (pre_shared_key s)"
proof -
  let ?p = "fmt_u r @ c_str (pre_shared_key s)"
  from assms have "length (c_str (pre_shared_key s)) < 32"
    using c_str_length_less [of "pre_shared_key s"] by (simp add: wf_state_def)
  with fmt_u_length [of r] show "length ?p < 64" by simp
  show "?p \<noteq> []" using fmt_u_nonempty [of r] by simp
  have "0 \<notin> set ?p" by (simp add: fmt_u_no_nul c_str_no_nul)
  then show "c_str ?p = ?p" by (rule c_str_id)
qed

lemma response_outcome:
  assumes "wf_state s"
  shows "verify_outcome (request_of (fmt_u r @ c_str (pre_shared_key s))) (issue q t) =
         Some (if fmt_u r @ c_str (pre_shared_key s) = expected_of (issue q t)
               then Accepted else Rejected)"
proof -
  note p = response_well_formed [OF assms, of r]
  show ?thesis
    unfolding verify_outcome_payload [OF p(1)] p(3) by (simp add: fmt_u_nonempty)
qed

lemma response_outcome_again:
  assumes "wf_state s"
  shows "verify_outcome (request_of (fmt_u r @ c_str (pre_shared_key s)))
           (verify req (issue q t)) =
         Some (if fmt_u r @ c_str (pre_shared_key s) = expected_of (issue q t)
               then Accepted else Rejected)"
proof -
  note p = response_well_formed [OF assms, of r]
  show ?thesis
    unfolding verify_outcome_payload [OF p(1)] p(3) expected_verify by (simp add: fmt_u_nonempty)
qed

lemma issued_token_eq: "issued_token r s = Some (fmt_u r)"
  by (simp add: issued_token_def get_challenge_handler_def Let_def c_str_issued)

lemma demo_payload:
  "bytes_of ''482913DEFAULT_KEY'' = fmt_u 482913 @ c_str (pre_shared_key app_main)"
  by (simp add: fmt_u_482913 key_app_main bytes_of_append [symmetric])

lemma c_str_challenge_issue: "c_str (current_challenge (issue r s)) = fmt_u r"
  by (simp add: issue_eq c_str_issued)

lemma demo_expected:
  "c_str (current_challenge (issue 482913 app_main)) @
   c_str (pre_shared_key (issue 482913 app_main)) = bytes_of ''482913DEFAULT_KEY''"
  unfolding c_str_challenge_issue issue_key demo_payload ..

subsection \<open>The lock flag along a history\<close>

lemma lock_after_issue: "lock_is_open (issue r s) = lock_is_open s"
  by (simp add: issue_eq)

lemma lock_after_verify:
  "lock_is_open (verify req s) = resolve (decide (verify_outcome req s) None) (lock_is_open s)"
  by (simp add: verify_eq verify_outcome_eq exec_unlock exec_relock resolve_def decide_def)

lemma resolve_fold:
  "resolve (fold decide vs acc) b = resolve (fold decide vs None) (resolve acc b)"
proof (induction vs arbitrary: acc b)
  case Nil
  show ?case by (simp add: resolve_def)
next
  case (Cons v vs)
  have "resolve (fold decide (v # vs) acc) b = resolve (fold decide vs (decide v acc)) b"
    by simp
  also have "\<dots> = resolve (fold decide vs None) (resolve (decide v acc) b)"
    by (rule Cons.IH)
  also have "resolve (decide v acc) b = resolve (decide v None) (resolve acc b)"
    by (auto simp: resolve_def decide_def)
  also have "resolve (fold decide vs None) (resolve (decide v None) (resolve acc b))
      = resolve (fold decide vs (decide v None)) (resolve acc b)"
    using Cons.IH [of "decide v None" "resolve acc b"] by simp
  finally show ?case by simp
qed

lemma lock_after_run:
  "lock_is_open (run_ops ops s) = resolve (last_decision (verdicts ops s)) (lock_is_open s)"
proof (induction ops arbitrary: s)
  case Nil
  show ?case by (simp add: last_decision_def resolve_def)
next
  case (Cons x xs)
  show ?case
  proof (cases x)
    case (IssueChallenge r)
    with Cons.IH [of "issue r s"] show ?thesis
      by (simp add: lock_after_issue)
  next
    case (Verify req)
    have "lock_is_open (run_ops (x # xs) s)
        = resolve (fold decide (verdicts xs (verify req s)) None) (lock_is_open (verify req s))"
      using Cons.IH [of "verify req s"] Verify by (simp add: last_decision_def)
    also have "\<dots> = resolve (fold decide (verdicts xs (verify req s))
                          (decide (verify_outcome req s) None)) (lock_is_open s)"
      unfolding lock_after_verify by (rule resolve_fold [symmetric])
    finally show ?thesis using Verify by (simp add: last_decision_def)
  qed
qed

text \<open>
  Every state the firmware reaches after boot has the LED handle and well-formed
  buffers, so the hypotheses \<open>led_strip s\<close> and \<open>wf_state s\<close> used below hold for it.
\<close>

lemma reachable_invariant:
  "led_strip (run_ops ops app_main) \<and> wf_state (run_ops ops app_main)"
proof -
  have "led_strip s \<and> wf_state s \<Longrightarrow> led_strip (run_ops ops s) \<and> wf_state (run_ops ops s)"
    for s
  proof (induction ops arbitrary: s)
    case Nil
    then show ?case by simp
  next
    case (Cons x xs)
    have "led_strip (apply_op x s) \<and> wf_state (apply_op x s)"
    proof (cases x)
      case (IssueChallenge r)
      with Cons.prems show ?thesis by (simp add: wf_issue) (simp add: issue_eq)
    next
      case (Verify req)
      with Cons.prems show ?thesis by (simp add: wf_verify verify_led_strip)
    qed
    then show ?case using Cons.IH by simp
  qed
  with led_app_main wf_app_main show ?thesis by blast
qed

lemma expected_run_verifies:
  "expected_of (run_ops (map Verify reqs) s) = expected_of s"
  by (induction reqs arbitrary: s) (simp_all add: expected_verify)

lemma c_str_append: "0 \<notin> set e \<Longrightarrow> c_str (e @ ys) = e @ c_str ys"
  unfolding c_str_def by (induction e) auto

section \<open>The claims\<close>

text \<open>
  C1, as the firmware has it. After GET /challenge has issued the token for \<open>r\<close>, the
  response made of that token followed by the key is accepted, and
  \<open>post_response_handler\<close> leaves \<open>current_challenge\<close> as it is: the same response
  sent a second time, with no new challenge in between, is accepted again.
\<close>

theorem verify_does_not_consume:
  assumes "wf_state s"
  shows "issued_token r s = Some (fmt_u r) \<and>
         verify_outcome (request_of (fmt_u r @ c_str (pre_shared_key s))) (issue r s)
           = Some Accepted \<and>
         verify_outcome (request_of (fmt_u r @ c_str (pre_shared_key s)))
           (verify (request_of (fmt_u r @ c_str (pre_shared_key s))) (issue r s))
           = Some Accepted"
  by (simp add: issued_token_eq response_outcome [OF assms]
      response_outcome_again [OF assms] expected_issue [OF assms])

theorem verify_does_not_consume_witness:
  "wf_state app_main \<and>
   verify_outcome (request_of (fmt_u 482913 @ c_str (pre_shared_key app_main)))
     (verify (request_of (fmt_u 482913 @ c_str (pre_shared_key app_main)))
        (issue 482913 app_main)) = Some Accepted"
  using verify_does_not_consume [OF wf_app_main, of 482913] wf_app_main by simp

text \<open>
  C1 as stated fails: after boot the token 482913 is issued, the response
  482913DEFAULT_KEY is accepted, and the second call with the same payload is accepted
  too, not rejected.
\<close>

theorem second_verify_counterexample:
  "issued_token 482913 app_main = Some (bytes_of ''482913'') \<and>
   verify_outcome (request_of (bytes_of ''482913DEFAULT_KEY'')) (issue 482913 app_main)
     = Some Accepted \<and>
   verify_outcome (request_of (bytes_of ''482913DEFAULT_KEY''))
     (verify (request_of (bytes_of ''482913DEFAULT_KEY'')) (issue 482913 app_main))
     = Some Accepted"
  unfolding demo_payload
  by (simp add: issued_token_eq fmt_u_482913 [symmetric] response_outcome [OF wf_app_main]
      response_outcome_again [OF wf_app_main] expected_issue [OF wf_app_main])

text \<open>
  C2, as the firmware has it. Before any GET /challenge (after boot and any number of
  POST /response calls) the challenge buffer holds the empty string, so the expected
  value is the key alone: a payload of fewer than 64 bytes is rejected unless it is
  empty (malformed) or its C string is the key itself (accepted).
\<close>

theorem verify_before_any_issue:
  assumes "length p < 64"
  shows "verify_outcome (request_of p) (run_ops (map Verify reqs) app_main) =
           Some (if p = [] then Malformed
                 else if c_str p = bytes_of ''DEFAULT_KEY'' then Accepted
                 else Rejected)"
  by (simp add: verify_outcome_payload [OF assms] expected_run_verifies expected_app_main)

theorem verify_before_any_issue_witness:
  "length (bytes_of ''WRONGKEY'') < 64 \<and>
   verify_outcome (request_of (bytes_of ''WRONGKEY'')) (run_ops (map Verify []) app_main)
     = Some Rejected"
proof -
  have l: "length (bytes_of ''WRONGKEY'') < 64" by (simp add: bytes_of_def)
  have "c_str (bytes_of ''WRONGKEY'') \<noteq> bytes_of ''DEFAULT_KEY''"
    by (simp add: bytes_of_def c_str_def)
  with verify_before_any_issue [OF l, of "[]"] l show ?thesis
    by (simp add: bytes_of_def)
qed

text \<open>
  C2 as stated fails: right after boot, with no challenge ever issued, the payload
  DEFAULT_KEY is accepted.
\<close>

theorem bare_key_counterexample:
  "verify_outcome (request_of (bytes_of ''DEFAULT_KEY'')) app_main = Some Accepted"
proof -
  have l: "length (bytes_of ''DEFAULT_KEY'') < 64" by (simp add: bytes_of_def)
  have c: "c_str (bytes_of ''DEFAULT_KEY'') = bytes_of ''DEFAULT_KEY''"
    by (simp add: bytes_of_def c_str_def)
  have ne: "bytes_of ''DEFAULT_KEY'' \<noteq> []" by (simp add: bytes_of_def)
  show ?thesis
    unfolding verify_outcome_payload [OF l] expected_app_main c using ne by simp
qed

text \<open>
  C3, as the firmware has it. The handler terminates the received bytes with a NUL and
  compares with \<open>strcmp\<close>, so for a payload of fewer than 64 bytes the answer is an
  acceptance exactly when the payload is not empty and its bytes before the first NUL
  are the challenge string followed by the key string; any other non-empty payload is
  rejected. A payload that extends the expected value is rejected when the first extra
  byte is not NUL and accepted when it is NUL.
\<close>

theorem accepted_iff_c_string_equal:
  assumes "wf_state s" and "length p < 64"
  shows "(verify_outcome (request_of p) s = Some Accepted \<longleftrightarrow>
            p \<noteq> [] \<and> c_str p = c_str (current_challenge s) @ c_str (pre_shared_key s)) \<and>
         (verify_outcome (request_of p) s = Some Rejected \<longleftrightarrow>
            p \<noteq> [] \<and> c_str p \<noteq> c_str (current_challenge s) @ c_str (pre_shared_key s)) \<and>
         (p = c_str (current_challenge s) @ c_str (pre_shared_key s) @ x # xs \<longrightarrow>
            verify_outcome (request_of p) s = Some (if x = 0 then Accepted else Rejected))"
proof -
  let ?e = "c_str (current_challenge s) @ c_str (pre_shared_key s)"
  note v = verify_outcome_wf [OF assms]
  have nz: "0 \<notin> set ?e" by (simp add: c_str_no_nul)
  have ext: "c_str (?e @ x # xs) = ?e \<longleftrightarrow> x = 0"
    unfolding c_str_append [OF nz] by (simp add: c_str_def)
  have "p = ?e @ x # xs \<longrightarrow>
          verify_outcome (request_of p) s = Some (if x = 0 then Accepted else Rejected)"
  proof
    assume p: "p = ?e @ x # xs"
    then have "p \<noteq> []" by simp
    with ext p show "verify_outcome (request_of p) s = Some (if x = 0 then Accepted else Rejected)"
      unfolding v by simp
  qed
  then show ?thesis unfolding v by simp
qed

theorem accepted_iff_c_string_equal_witness:
  "wf_state (issue 482913 app_main) \<and> length (bytes_of ''482913DEFAULT_KEY'') < 64 \<and>
   verify_outcome (request_of (bytes_of ''482913DEFAULT_KEY'')) (issue 482913 app_main)
     = Some Accepted \<and>
   verify_outcome (request_of (bytes_of ''482913WRONGKEY'')) (issue 482913 app_main)
     = Some Rejected \<and>
   verify_outcome (request_of (bytes_of ''482913DEFAULT_KEY'' @ [65])) (issue 482913 app_main)
     = Some Rejected"
proof -
  let ?s = "issue 482913 app_main"
  have w: "wf_state ?s" by (rule wf_issue [OF wf_app_main])
  have l: "length (bytes_of ''482913DEFAULT_KEY'') < 64"
    and l': "length (bytes_of ''482913WRONGKEY'') < 64"
    and l'': "length (bytes_of ''482913DEFAULT_KEY'' @ [65]) < 64"
    by (simp_all add: bytes_of_def)
  note e = demo_expected
  have x: "bytes_of ''482913DEFAULT_KEY'' @ [65]
           = c_str (current_challenge ?s) @ c_str (pre_shared_key ?s) @ [65]"
    by (simp only: append_assoc [symmetric] e)
  have c: "c_str (bytes_of ''482913DEFAULT_KEY'') = bytes_of ''482913DEFAULT_KEY''"
    and c': "c_str (bytes_of ''482913WRONGKEY'') \<noteq> bytes_of ''482913DEFAULT_KEY''"
    by (simp_all add: bytes_of_def c_str_def)
  have "verify_outcome (request_of (bytes_of ''482913DEFAULT_KEY'' @ [65])) ?s = Some Rejected"
    using accepted_iff_c_string_equal [OF w l'', of 65 "[]"] x by simp
  with accepted_iff_c_string_equal [OF w l] accepted_iff_c_string_equal [OF w l'] w l c c'
  show ?thesis unfolding e by (simp add: bytes_of_def)
qed

text \<open>
  C3 as stated fails: with the token 482913 outstanding, the payload
  482913DEFAULT_KEY followed by a NUL byte and the letter A is not equal to the
  expected value, is shorter than 64 bytes, and is accepted.
\<close>

theorem nul_extension_counterexample:
  "length (bytes_of ''482913DEFAULT_KEY'' @ [0, 65]) < 64 \<and>
   bytes_of ''482913DEFAULT_KEY'' @ [0, 65] \<noteq>
     c_str (current_challenge (issue 482913 app_main)) @
     c_str (pre_shared_key (issue 482913 app_main)) \<and>
   verify_outcome (request_of (bytes_of ''482913DEFAULT_KEY'' @ [0, 65]))
     (issue 482913 app_main) = Some Accepted"
proof -
  have l: "length (bytes_of ''482913DEFAULT_KEY'' @ [0, 65]) < 64"
    by (simp add: bytes_of_def)
  note e = demo_expected
  have c: "c_str (bytes_of ''482913DEFAULT_KEY'' @ [0, 65]) = bytes_of ''482913DEFAULT_KEY''"
    by (simp add: bytes_of_def c_str_def)
  have "verify_outcome (request_of (bytes_of ''482913DEFAULT_KEY'' @ [0, 65]))
     (issue 482913 app_main) = Some Accepted"
    unfolding verify_outcome_wf [OF wf_issue [OF wf_app_main] l] e c by simp
  with l show ?thesis unfolding e by simp
qed

text \<open>
  C4. When the answer is a rejection and the LED handle exists, the handler runs
  exactly these statements in this order, from a locked or an unlocked state alike:
  the pixel is set blue, status 401 is sent, the task waits for the ticks of 4000 ms,
  \<open>lock_is_open\<close> is cleared, the pixel is set red. The states passed through are
  listed: the lock flag keeps its old value while the pixel is blue, and the call ends
  locked and red.
\<close>

theorem rejected_holds_then_relocks:
  assumes "verify_outcome req s = Some Rejected" and "led_strip s"
  shows "snd (post_response_handler req s) =
           [Set_led_color 0 0 255,
            Httpd_resp_send_err HTTPD_401_UNAUTHORIZED ''Invalid token'',
            VTaskDelay_ms 4000, Set_lock_is_open False, Set_led_color 255 0 0] \<and>
         run (snd (post_response_handler req s)) s =
           [s\<lparr>pixel := (0, 0, 255)\<rparr>, s\<lparr>pixel := (0, 0, 255)\<rparr>, s\<lparr>pixel := (0, 0, 255)\<rparr>,
            s\<lparr>pixel := (0, 0, 255), lock_is_open := False\<rparr>,
            s\<lparr>pixel := (255, 0, 0), lock_is_open := False\<rparr>] \<and>
         verify req s = s\<lparr>pixel := (255, 0, 0), lock_is_open := False\<rparr>"
  using assms
  by (auto simp: verify_outcome_eq verify_eq post_response_handler_eq exec_relock
           split: if_splits)

theorem rejected_holds_then_relocks_witness:
  "verify_outcome (request_of (bytes_of ''482913WRONGKEY'')) (issue 482913 app_main)
     = Some Rejected \<and>
   led_strip (issue 482913 app_main) \<and>
   pixel (verify (request_of (bytes_of ''482913WRONGKEY'')) (issue 482913 app_main))
     = (255, 0, 0) \<and>
   \<not> lock_is_open (verify (request_of (bytes_of ''482913WRONGKEY'')) (issue 482913 app_main))"
proof -
  have l: "length (bytes_of ''482913WRONGKEY'') < 64" by (simp add: bytes_of_def)
  have c: "c_str (bytes_of ''482913WRONGKEY'') \<noteq> bytes_of ''482913DEFAULT_KEY''"
    and ne: "bytes_of ''482913WRONGKEY'' \<noteq> []"
    by (simp_all add: bytes_of_def c_str_def)
  have r: "verify_outcome (request_of (bytes_of ''482913WRONGKEY'')) (issue 482913 app_main)
     = Some Rejected"
    unfolding verify_outcome_wf [OF wf_issue [OF wf_app_main] l] demo_expected
    using c ne by simp
  have d: "led_strip (issue 482913 app_main)" by (simp add: issue_eq led_app_main)
  from rejected_holds_then_relocks [OF r d] r d show ?thesis by simp
qed

text \<open>
  C5. When the answer is an acceptance and the LED handle exists, the handler sets
  \<open>lock_is_open\<close>, sets the pixel green and sends the plain answer Unlocked with
  \<open>ESP_OK\<close>; nothing else changes.
\<close>

theorem accepted_unlocks:
  assumes "verify_outcome req s = Some Accepted" and "led_strip s"
  shows "post_response_handler req s =
           (ESP_OK, [Set_lock_is_open True, Set_led_color 0 255 0,
                     Httpd_resp_sendstr (bytes_of ''Unlocked'')]) \<and>
         lock_is_open (verify req s) \<and> pixel (verify req s) = (0, 255, 0) \<and>
         verify req s = s\<lparr>lock_is_open := True, pixel := (0, 255, 0)\<rparr>"
  using assms
  by (auto simp: verify_outcome_eq verify_eq post_response_handler_eq exec_unlock
           split: if_splits)

theorem accepted_unlocks_witness:
  "verify_outcome (request_of (bytes_of ''482913DEFAULT_KEY'')) (issue 482913 app_main)
     = Some Accepted \<and>
   led_strip (issue 482913 app_main) \<and>
   lock_is_open (verify (request_of (bytes_of ''482913DEFAULT_KEY'')) (issue 482913 app_main)) \<and>
   pixel (verify (request_of (bytes_of ''482913DEFAULT_KEY'')) (issue 482913 app_main))
     = (0, 255, 0)"
proof -
  have a: "verify_outcome (request_of (bytes_of ''482913DEFAULT_KEY'')) (issue 482913 app_main)
     = Some Accepted"
    unfolding demo_payload
    by (simp add: response_outcome [OF wf_app_main] expected_issue [OF wf_app_main])
  have d: "led_strip (issue 482913 app_main)" by (simp add: issue_eq led_app_main)
  from accepted_unlocks [OF a d] a d show ?thesis by simp
qed

text \<open>
  C6. A request whose declared length is 64 or more, and a request with no body, is
  answered with status 400 and \<open>ESP_FAIL\<close>, which is the malformed outcome and not
  the rejection; the handler runs that one statement only and every global keeps its
  value. For a payload that arrives whole the declared length is its length.
\<close>

theorem malformed_request:
  assumes "64 \<le> content_len req \<or> body req = []"
  shows "verify_outcome req s = Some Malformed \<and> Malformed \<noteq> Rejected \<and>
         fst (post_response_handler req s) = ESP_FAIL \<and>
         run (snd (post_response_handler req s)) s = [s] \<and>
         verify req s = s"
  using assms
  by (auto simp: verify_outcome_eq verify_eq post_response_handler_eq received_def)

theorem malformed_request_witness:
  "verify_outcome (request_of (replicate 65 65)) app_main = Some Malformed \<and>
   verify (request_of (replicate 65 65)) app_main = app_main \<and>
   verify_outcome (request_of []) app_main = Some Malformed \<and>
   verify (request_of []) app_main = app_main"
  using malformed_request [of "request_of (replicate 65 65)" app_main]
        malformed_request [of "request_of []" app_main]
  by (simp add: request_of_def)

text \<open>
  C7, as the firmware has it. A token is the decimal text of a random 32-bit value, and
  different values give different tokens. When the second GET /challenge draws a value
  other than the first, the response built from the first token and the key is
  rejected.
\<close>

theorem superseded_challenge_rejected:
  assumes "wf_state s" and "r2 \<noteq> r1"
  shows "verify_outcome (request_of (fmt_u r1 @ c_str (pre_shared_key s)))
           (issue r2 (issue r1 s)) = Some Rejected"
proof -
  have e: "expected_of (issue r2 (issue r1 s)) = fmt_u r2 @ c_str (pre_shared_key s)"
    using expected_issue [OF wf_issue [OF assms(1)], of r2 r1] by (simp add: issue_key)
  from assms(2) have "fmt_u r1 \<noteq> fmt_u r2" by (auto dest: fmt_u_inj)
  then show ?thesis
    by (simp add: response_outcome [OF assms(1)] e)
qed

theorem superseded_challenge_rejected_witness:
  "wf_state app_main \<and> (7::32 word) \<noteq> 5 \<and>
   verify_outcome (request_of (fmt_u 5 @ c_str (pre_shared_key app_main)))
           (issue 7 (issue 5 app_main)) = Some Rejected"
  using superseded_challenge_rejected [OF wf_app_main, of 7 5] wf_app_main by simp

text \<open>
  C7 as stated fails when the random source repeats a value: token 5 is issued, then
  token 5 again, and the response 5DEFAULT_KEY made for the first one is accepted.
\<close>

theorem same_token_counterexample:
  "issued_token 5 app_main = Some (bytes_of ''5'') \<and>
   issued_token 5 (issue 5 app_main) = Some (bytes_of ''5'') \<and>
   verify_outcome (request_of (bytes_of ''5DEFAULT_KEY'')) (issue 5 (issue 5 app_main))
     = Some Accepted"
  by code_simp

text \<open>
  C8. Along every history of operations from boot, the lock is open exactly when the
  most recent POST /response that was accepted or rejected was accepted. For any state
  and any single operation: if the lock was closed before and is open after, the
  operation was a POST /response and its answer was an acceptance.
\<close>

theorem unlocked_only_by_accepted_verify:
  "(lock_is_open (run_ops ops app_main) \<longleftrightarrow>
      last_decision (verdicts ops app_main) = Some Accepted) \<and>
   (\<not> lock_is_open s \<and> lock_is_open (apply_op x s) \<longrightarrow>
      (\<exists>req. x = Verify req \<and> verify_outcome req s = Some Accepted))"
proof
  have "last_decision vs \<noteq> Some Malformed" for vs
    unfolding last_decision_def
    by (induction vs rule: rev_induct) (auto simp: decide_def)
  then show "lock_is_open (run_ops ops app_main) \<longleftrightarrow>
      last_decision (verdicts ops app_main) = Some Accepted"
    by (cases "last_decision (verdicts ops app_main)")
       (simp_all add: lock_after_run resolve_def app_main_eq)
next
  show "\<not> lock_is_open s \<and> lock_is_open (apply_op x s) \<longrightarrow>
      (\<exists>req. x = Verify req \<and> verify_outcome req s = Some Accepted)"
  proof (cases x)
    case (IssueChallenge r)
    then show ?thesis by (simp add: lock_after_issue)
  next
    case (Verify req)
    then show ?thesis
      by (auto simp: verify_eq verify_outcome_eq exec_unlock exec_relock split: if_splits)
  qed
qed

theorem unlocked_only_by_accepted_verify_witness:
  "\<not> lock_is_open (issue 482913 app_main) \<and>
   lock_is_open (apply_op (Verify (request_of (bytes_of ''482913DEFAULT_KEY'')))
                  (issue 482913 app_main)) \<and>
   (\<exists>req. Verify (request_of (bytes_of ''482913DEFAULT_KEY'')) = Verify req \<and>
          verify_outcome req (issue 482913 app_main) = Some Accepted) \<and>
   lock_is_open (run_ops [IssueChallenge 482913,
                          Verify (request_of (bytes_of ''482913DEFAULT_KEY''))] app_main)"
proof -
  let ?req = "request_of (bytes_of ''482913DEFAULT_KEY'')"
  let ?s = "issue 482913 app_main"
  have a: "verify_outcome ?req ?s = Some Accepted"
    unfolding demo_payload
    by (simp add: response_outcome [OF wf_app_main] expected_issue [OF wf_app_main])
  have c: "\<not> lock_is_open ?s" by (simp add: lock_after_issue app_main_eq)
  have o: "lock_is_open (apply_op (Verify ?req) ?s)"
    by (simp add: lock_after_verify a decide_def resolve_def)
  from unlocked_only_by_accepted_verify [of "[IssueChallenge 482913, Verify ?req]" ?s "Verify ?req"]
    c o a
  show ?thesis by (simp add: last_decision_def decide_def)
qed

text \<open>
  C9. GET /challenge always returns \<open>ESP_OK\<close> and sends the new token. Two calls in a
  row change no global other than \<open>current_challenge\<close>: the lock flag and the pixel
  are as before, and the buffer then holds the token of the second call.
\<close>

theorem issue_twice_frame:
  "issue r2 (issue r1 s) = s\<lparr>current_challenge := current_challenge (issue r2 (issue r1 s))\<rparr> \<and>
   lock_is_open (issue r2 (issue r1 s)) = lock_is_open s \<and>
   pixel (issue r2 (issue r1 s)) = pixel s \<and>
   fst (get_challenge_handler r2 (issue r1 s)) = ESP_OK \<and>
   issued_token r2 (issue r1 s) = Some (fmt_u r2) \<and>
   c_str (current_challenge (issue r2 (issue r1 s))) = fmt_u r2"
  by (simp add: issue_eq c_str_issued issued_token_def get_challenge_handler_def Let_def)

text \<open>
  C10. \<open>post_response_handler\<close> never stores into \<open>current_challenge\<close>: whatever the
  request, the buffer after the call is the buffer before it, and no statement of the
  handler is a store to it. So after a GET /challenge followed by any number of
  POST /response calls the buffer still holds the token that GET /challenge produced.
\<close>

theorem verify_leaves_challenge:
  "current_challenge (verify req s) = current_challenge s \<and>
   Store_current_challenge c \<notin> set (snd (post_response_handler req s)) \<and>
   c_str (current_challenge (run_ops (map Verify reqs) (issue r s))) = fmt_u r"
  by (simp add: verify_challenge run_verifies_challenge post_response_handler_eq
      issue_eq c_str_issued)

end
